theory Spec2Isabelle
  imports Main
begin

section \<open>The notification API route (src/app/api/notify/route.ts)\<close>

subsection \<open>Data\<close>

text \<open>
  A push subscription as the browser hands it over: the endpoint (absent when the JSON object
  has no such field) and the keying material, which the route never inspects.
\<close>

record subscription_keys =
  p256dh :: string
  auth :: string

record push_subscription =
  endpoint :: "string option"
  keys :: subscription_keys

text \<open>
  The parsed request body. \<open>subscription\<close> is \<open>None\<close> when the member is absent
  or \<open>null\<close> (the page sends \<open>null\<close> before it has subscribed), and an object, hence
  truthy, otherwise. \<open>type\<close> is \<open>None\<close> when the member is absent; the route reads it
  as a string, and the empty string is not truthy.
\<close>

record request_body =
  type :: "string option"
  subscription :: "push_subscription option"

text \<open>
  What \<open>await request.json()\<close> gives: it throws (with a message), or it yields \<open>null\<close>
  (on which the first property read throws a TypeError), or it yields an object. A JSON number,
  string, boolean or array has neither member and reads as the object without them.
\<close>

datatype request = JsonFails string | JsonNull | JsonObject request_body

datatype notification_action = Action string string "string option"

record payload_data =
  data_url :: string
  data_type :: string

record notification_payload =
  title :: string
  body :: string
  icon :: string
  badge :: string
  tag :: string
  data :: payload_data
  actions :: "notification_action list"

text \<open>
  The second argument of \<open>webpush.sendNotification\<close>, that is
  \<open>JSON.stringify(notificationPayloads[notificationType])\<close>: the serialised catalog entry,
  \<open>undefined\<close> when the lookup finds nothing serialisable, and the text \<open>{}\<close> for the
  inherited key \<open>__proto__\<close>.
\<close>

datatype wire_payload = Undefined | EmptyObject | Serialized notification_payload

text \<open>
  What a delivery attempt throws: an \<open>Error\<close> with its message and, when the push service
  answered with an HTTP status, that status (the member \<open>statusCode\<close> which the outer
  \<open>catch\<close> reads at line 216), or a value that is no \<open>Error\<close>.
\<close>

datatype thrown = ErrorObj string "nat option" | NonError

datatype send_result = Delivered | Throws thrown

text \<open>
  The push network is outside the repository: its answer to the attempt started for the
  subscription at a given position of the list is a parameter of the model.
\<close>

type_synonym transport = "nat \<Rightarrow> push_subscription \<Rightarrow> wire_payload \<Rightarrow> send_result"

record send_outcome =
  success :: bool
  index :: nat
  shouldRemove :: bool

datatype response =
  SubscriptionStored nat
  | NotificationSent string nat nat nat
  | ErrorJson nat string "string option"

text \<open>
  The observable result of one \<open>POST\<close>: the JSON response, the module-level list
  \<open>pushSubscriptions\<close> afterwards, and the delivery attempts started (position, subscription,
  payload).
\<close>

record post_result =
  response :: response
  store :: "push_subscription list"
  attempts :: "(nat \<times> push_subscription \<times> wire_payload) list"

subsection \<open>JavaScript primitives used by the route\<close>

definition truthy :: "string option \<Rightarrow> bool" where
  "truthy v = (case v of None \<Rightarrow> False | Some s \<Rightarrow> s \<noteq> [])"

fun startsWith :: "string \<Rightarrow> string \<Rightarrow> bool" where
  "startsWith s [] = True"
| "startsWith [] (p # ps) = False"
| "startsWith (c # cs) (p # ps) = (c = p \<and> startsWith cs ps)"

fun str_includes :: "string \<Rightarrow> string \<Rightarrow> bool" where
  "str_includes [] pat = (pat = [])"
| "str_includes (c # cs) pat = (startsWith (c # cs) pat \<or> str_includes cs pat)"

fun findIndex :: "('a \<Rightarrow> bool) \<Rightarrow> 'a list \<Rightarrow> nat option" where
  "findIndex P [] = None"
| "findIndex P (x # xs) = (if P x then Some 0 else map_option Suc (findIndex P xs))"

text \<open>\<open>xs.splice(i, 1)\<close>; nothing is removed when \<open>i\<close> is past the end.\<close>

definition splice1 :: "nat \<Rightarrow> 'a list \<Rightarrow> 'a list" where
  "splice1 i xs = take i xs @ drop (Suc i) xs"

text \<open>\<open>.sort((a, b) => b - a)\<close>: descending numeric order.\<close>

definition sort_desc :: "nat list \<Rightarrow> nat list" where
  "sort_desc xs = rev (sort xs)"

text \<open>
  \<open>Promise.all\<close> over the attempts: each attempt that settles writes its value into the slot
  of its own position, in the order \<open>ord\<close> in which the attempts complete; the combined promise
  resolves, with the slots in list order, only once every slot is filled. \<open>None\<close> means
  that it never resolves.
\<close>

definition promise_all :: "nat list \<Rightarrow> 'a list \<Rightarrow> 'a list option" where
  "promise_all ord ps =
     those (fold (\<lambda>i slots. if i < length slots then slots[i := Some (ps ! i)] else slots)
                 ord (replicate (length ps) None))"

subsection \<open>The payload catalog\<close>

definition icon192 :: string where
  "icon192 = ''/icon-192x192.svg''"

definition notificationPayloads :: "string \<Rightarrow> notification_payload option" where
  "notificationPayloads t =
    (if t = ''new_match'' then Some
       \<lparr>title = ''A New Spark! '' @ [CHR 0xE2, CHR 0x9C, CHR 0xA8],
        body = ''You've matched with someone special!'',
        icon = icon192, badge = icon192, tag = ''new_match'',
        data = \<lparr>data_url = ''/chats?new_match=true'', data_type = ''new_match''\<rparr>,
        actions = [Action ''view'' ''View Match'' (Some icon192),
                   Action ''dismiss'' ''Later'' None]\<rparr>
     else if t = ''new_message'' then Some
       \<lparr>title = ''New Message '' @ [CHR 0xF0, CHR 0x9F, CHR 0x92, CHR 0xAC],
        body = ''Someone sent you a message.'',
        icon = icon192, badge = icon192, tag = ''new_message'',
        data = \<lparr>data_url = ''/chats/123'', data_type = ''new_message''\<rparr>,
        actions = [Action ''view'' ''Read Now'' (Some icon192),
                   Action ''dismiss'' ''Later'' None]\<rparr>
     else if t = ''chat_expiry'' then Some
       \<lparr>title = ''Time's Ticking! '' @ [CHR 0xE2, CHR 0x8F, CHR 0xB0],
        body = ''A chat is about to expire. Don't miss out!'',
        icon = icon192, badge = icon192, tag = ''chat_expiry'',
        data = \<lparr>data_url = ''/chats/456'', data_type = ''chat_expiry''\<rparr>,
        actions = [Action ''view'' ''Open Chat'' (Some icon192),
                   Action ''dismiss'' ''Dismiss'' None]\<rparr>
     else None)"

text \<open>
  \<open>JSON.stringify(notificationPayloads[notificationType])\<close>. The object literal inherits
  the members of \<open>Object.prototype\<close>: all of them are functions, which serialise to
  \<open>undefined\<close>, except \<open>__proto__\<close>, the prototype object itself, which serialises to
  \<open>{}\<close>.
\<close>

definition stringify_payload :: "string \<Rightarrow> wire_payload" where
  "stringify_payload t =
    (case notificationPayloads t of
       Some p \<Rightarrow> Serialized p
     | None \<Rightarrow> if t = ''__proto__'' then EmptyObject else Undefined)"

subsection \<open>The handler\<close>

text \<open>Lines 42 to 52: replace the first record with the same endpoint, else append.\<close>

definition store_subscription ::
  "push_subscription list \<Rightarrow> push_subscription \<Rightarrow> push_subscription list" where
  "store_subscription pushSubscriptions sub =
    (case findIndex (\<lambda>s. endpoint s = endpoint sub) pushSubscriptions of
       Some existingIndex \<Rightarrow> pushSubscriptions[existingIndex := sub]
     | None \<Rightarrow> pushSubscriptions @ [sub])"

text \<open>Lines 68 to 71: a subscription sent along with a type is stored only into an empty list.\<close>

definition store_if_empty ::
  "push_subscription list \<Rightarrow> push_subscription option \<Rightarrow> push_subscription list" where
  "store_if_empty pushSubscriptions sub =
    (case sub of
       Some s \<Rightarrow> if length pushSubscriptions = 0 then pushSubscriptions @ [s] else pushSubscriptions
     | None \<Rightarrow> pushSubscriptions)"

text \<open>Lines 168 and 169: the test that marks a subscription for removal.\<close>

definition is_gone :: "thrown \<Rightarrow> bool" where
  "is_gone e =
    (case e of
       ErrorObj message statusCode \<Rightarrow>
         str_includes message ''410'' \<or> str_includes message ''expired''
     | NonError \<Rightarrow> False)"

text \<open>Lines 156 to 176: the body of the callback mapped over the list.\<close>

definition send_one :: "transport \<Rightarrow> wire_payload \<Rightarrow> push_subscription \<Rightarrow> nat \<Rightarrow> send_outcome" where
  "send_one webpush payload sub i =
    (case webpush i sub payload of
       Delivered \<Rightarrow> \<lparr>success = True, index = i, shouldRemove = False\<rparr>
     | Throws e \<Rightarrow>
         if is_gone e then \<lparr>success = False, index = i, shouldRemove = True\<rparr>
         else \<lparr>success = False, index = i, shouldRemove = False\<rparr>)"

definition sendPromises ::
  "transport \<Rightarrow> wire_payload \<Rightarrow> push_subscription list \<Rightarrow> send_outcome list" where
  "sendPromises webpush payload pushSubscriptions =
     map (\<lambda>(sub, i). send_one webpush payload sub i)
         (zip pushSubscriptions [0..<length pushSubscriptions])"

definition started ::
  "wire_payload \<Rightarrow> push_subscription list \<Rightarrow> (nat \<times> push_subscription \<times> wire_payload) list" where
  "started payload pushSubscriptions =
     map (\<lambda>(sub, i). (i, sub, payload)) (zip pushSubscriptions [0..<length pushSubscriptions])"

text \<open>Lines 181 to 201: removal of the marked positions and the report.\<close>

definition prune :: "send_outcome list \<Rightarrow> push_subscription list \<Rightarrow> push_subscription list" where
  "prune results pushSubscriptions =
     (let invalidIndices = sort_desc (map index (filter shouldRemove results))
      in fold splice1 invalidIndices pushSubscriptions)"

definition report ::
  "string \<Rightarrow> send_outcome list \<Rightarrow> push_subscription list \<Rightarrow> response" where
  "report notificationType results pushSubscriptions =
     (let successCount = length (filter success results);
          failureCount = length results - successCount
      in NotificationSent notificationType successCount failureCount (length pushSubscriptions))"

text \<open>Lines 64 to 202: the branch taken when \<open>body.type\<close> is truthy.\<close>

definition dispatch ::
  "transport \<Rightarrow> nat list \<Rightarrow> push_subscription list \<Rightarrow> string \<Rightarrow> push_subscription option
     \<Rightarrow> post_result option" where
  "dispatch webpush ord pushSubscriptions0 notificationType sub =
    (let pushSubscriptions = store_if_empty pushSubscriptions0 sub
     in if length pushSubscriptions = 0
        then Some \<lparr>response = ErrorJson 400 ''No subscriptions found'' None,
                   store = pushSubscriptions, attempts = []\<rparr>
        else
          (let payload = stringify_payload notificationType
           in case promise_all ord (sendPromises webpush payload pushSubscriptions) of
                None \<Rightarrow> None
              | Some results \<Rightarrow>
                  (let pruned = prune results pushSubscriptions
                   in Some \<lparr>response = report notificationType results pruned,
                             store = pruned,
                             attempts = started payload pushSubscriptions\<rparr>)))"

definition null_read_message :: string where
  "null_read_message = ''Cannot read properties of null (reading 'subscription')''"

text \<open>
  The exported \<open>POST\<close>, one request at a time: no other request touches the list between
  the start of the fan-out and the removals. \<open>ord\<close> is the order in which the delivery
  attempts of this request complete; the result is \<open>None\<close> when the handler never returns,
  which happens when some attempt never settles (the route sets no timeout).
\<close>

definition POST ::
  "transport \<Rightarrow> nat list \<Rightarrow> push_subscription list \<Rightarrow> request \<Rightarrow> post_result option" where
  "POST webpush ord pushSubscriptions req =
    (case req of
       JsonFails message \<Rightarrow>
         Some \<lparr>response = ErrorJson 500 ''Internal server error'' (Some message),
               store = pushSubscriptions, attempts = []\<rparr>
     | JsonNull \<Rightarrow>
         Some \<lparr>response = ErrorJson 500 ''Internal server error'' (Some null_read_message),
               store = pushSubscriptions, attempts = []\<rparr>
     | JsonObject b \<Rightarrow>
         (case (subscription b, truthy (type b)) of
            (Some sub, False) \<Rightarrow>
              (let stored = store_subscription pushSubscriptions sub
               in Some \<lparr>response = SubscriptionStored (length stored),
                         store = stored, attempts = []\<rparr>)
          | (sub, True) \<Rightarrow> dispatch webpush ord pushSubscriptions (the (type b)) sub
          | (None, False) \<Rightarrow>
              Some \<lparr>response =
                      ErrorJson 400 ''Invalid request body - neither subscription nor type found'' None,
                    store = pushSubscriptions, attempts = []\<rparr>))"

subsection \<open>Notions used in the statements\<close>

text \<open>How the network answers the attempt at position \<open>i\<close> of a snapshot.\<close>

definition delivered_at :: "transport \<Rightarrow> wire_payload \<Rightarrow> push_subscription list \<Rightarrow> nat \<Rightarrow> bool" where
  "delivered_at webpush payload subs i = (webpush i (subs ! i) payload = Delivered)"


text \<open>
  The specification's own criterion for a permanent failure, in its words: the transport
  reports the endpoint gone by the status 410, or by a message that tells of expiry. It is
  stated apart from the test of lines 168 and 169, to be compared with it.
\<close>

definition reports_permanently_gone :: "thrown \<Rightarrow> bool" where
  "reports_permanently_gone e =
    (case e of
       ErrorObj message statusCode \<Rightarrow> statusCode = Some 410 \<or> str_includes message ''expired''
     | NonError \<Rightarrow> False)"

subsection \<open>Concrete subscriptions, networks and requests\<close>

definition sub_a :: push_subscription where
  "sub_a = \<lparr>endpoint = Some ''https://push.example/a'', keys = \<lparr>p256dh = ''pa'', auth = ''aa''\<rparr>\<rparr>"

definition sub_b :: push_subscription where
  "sub_b = \<lparr>endpoint = Some ''https://push.example/b'', keys = \<lparr>p256dh = ''pb'', auth = ''ab''\<rparr>\<rparr>"

definition sub_c :: push_subscription where
  "sub_c = \<lparr>endpoint = Some ''https://push.example/c'', keys = \<lparr>p256dh = ''pc'', auth = ''ac''\<rparr>\<rparr>"

definition net_mixed :: transport where
  "net_mixed i sub payload =
     (if i = 0 then Delivered
      else if i = 1 then Throws (ErrorObj ''status 410'' (Some 410))
      else Throws (ErrorObj ''timeout'' None))"


text \<open>
  The error of the web-push library for a response that is no success: the status is in
  \<open>statusCode\<close>, the message is fixed.
\<close>

definition net_status_410 :: transport where
  "net_status_410 i sub payload = Throws (ErrorObj ''Received unexpected response code'' (Some 410))"

definition net_timeout_4100 :: transport where
  "net_timeout_4100 i sub payload = Throws (ErrorObj ''timeout after 4100 ms'' None)"

definition net_first_only :: transport where
  "net_first_only i sub payload = (if i = 0 then Delivered else Throws NonError)"

definition sub_no_endpoint :: push_subscription where
  "sub_no_endpoint = \<lparr>endpoint = None, keys = \<lparr>p256dh = ''pn'', auth = ''an''\<rparr>\<rparr>"


definition sub_a2 :: push_subscription where
  "sub_a2 = \<lparr>endpoint = Some ''https://push.example/a'', keys = \<lparr>p256dh = ''pa2'', auth = ''aa2''\<rparr>\<rparr>"

definition register_request :: "push_subscription \<Rightarrow> request" where
  "register_request sub = JsonObject \<lparr>type = None, subscription = Some sub\<rparr>"

subsection \<open>The lists the route can reach\<close>

text \<open>
  The module starts with an empty list (line 10); every request handled by \<open>POST\<close> that
  returns leaves the next one.
\<close>

inductive reachable :: "push_subscription list \<Rightarrow> bool" where
  initial: "reachable []"
| request: "reachable pushSubscriptions \<Longrightarrow> POST webpush ord pushSubscriptions req = Some r
              \<Longrightarrow> reachable (store r)"

text \<open>\<open>run a b\<close>: some sequence of requests, possibly none, leads from the list \<open>a\<close> to \<open>b\<close>.\<close>

inductive run :: "push_subscription list \<Rightarrow> push_subscription list \<Rightarrow> bool" where
  none: "run pushSubscriptions pushSubscriptions"
| more: "run pushSubscriptions0 pushSubscriptions \<Longrightarrow> POST webpush ord pushSubscriptions req = Some r
              \<Longrightarrow> run pushSubscriptions0 (store r)"

section \<open>The service worker (src/service-worker.js)\<close>

subsection \<open>The push listener\<close>

text \<open>
  The object a push message parses to, as far as the listener and the notification options
  read it. A field is \<open>None\<close> when the object has no such member. A number or a boolean
  behaves as the object with no member.
\<close>

record message_data =
  md_url :: "string option"
  md_type :: "string option"

record push_message =
  msg_title :: "string option"
  msg_body :: "string option"
  msg_icon :: "string option"
  msg_badge :: "string option"
  msg_tag :: "string option"
  msg_vibrate :: "nat list option"
  msg_requireInteraction :: "bool option"
  msg_renotify :: "bool option"
  msg_data :: "message_data option"
  msg_actions :: "notification_action list option"

text \<open>
  \<open>event.data.json()\<close>: it throws when the body is not JSON, it yields \<open>null\<close> for the
  body \<open>null\<close>, or it yields an object. \<open>event.data\<close> itself is \<open>null\<close> (here
  \<open>None\<close>) when the message carries no body.
\<close>

datatype push_body = NotJson | NullJson | ObjectJson push_message

record shown_data =
  sd_url :: string
  sd_type :: "string option"

record notification_options =
  opt_body :: "string option"
  opt_icon :: "string option"
  opt_badge :: "string option"
  opt_tag :: "string option"
  opt_vibrate :: "nat list option"
  opt_requireInteraction :: "bool option"
  opt_renotify :: "bool option"
  opt_data :: shown_data
  opt_actions :: "notification_action list option"

text \<open>One call of \<open>self.registration.showNotification(title, options)\<close>.\<close>

datatype shown = ShowNotification string notification_options

definition or_default :: "'a option \<Rightarrow> 'a \<Rightarrow> 'a" where
  "or_default v d = (case v of None \<Rightarrow> d | Some x \<Rightarrow> x)"

text \<open>Lines 72 to 91: defaults, overridden by the message, with the nested data rebuilt.\<close>

definition merge_options :: "push_message \<Rightarrow> notification_options" where
  "merge_options m =
    \<lparr>opt_body = msg_body m,
     opt_icon = Some (or_default (msg_icon m) ''/icon-192x192.svg''),
     opt_badge = Some (or_default (msg_badge m) ''/icon-192x192.svg''),
     opt_tag = msg_tag m,
     opt_vibrate = Some (or_default (msg_vibrate m) [200, 100, 200]),
     opt_requireInteraction = Some (or_default (msg_requireInteraction m) True),
     opt_renotify = Some (or_default (msg_renotify m) True),
     opt_data =
       (case msg_data m of
          None \<Rightarrow> \<lparr>sd_url = ''/'', sd_type = Some ''unknown''\<rparr>
        | Some d \<Rightarrow> \<lparr>sd_url = or_default (md_url d) ''/'',
                     sd_type = Some (or_default (md_type d) ''unknown'')\<rparr>),
     opt_actions = msg_actions m\<rparr>"

text \<open>Lines 105 to 110: the notification of the \<open>catch\<close> branch.\<close>

definition fallback_notification :: shown where
  "fallback_notification =
     ShowNotification ''New Notification''
       \<lparr>opt_body = Some ''You have a new notification'',
        opt_icon = Some ''/icon-192x192.svg'',
        opt_badge = Some ''/icon-192x192.svg'',
        opt_tag = None, opt_vibrate = None, opt_requireInteraction = None, opt_renotify = None,
        opt_data = \<lparr>sd_url = ''/'', sd_type = None\<rparr>,
        opt_actions = None\<rparr>"

text \<open>
  The push listener (lines 57 to 113): the notifications it shows. Reading \<open>data.tag\<close> of
  \<open>null\<close> throws inside the \<open>try\<close>, like a body that is not JSON.
\<close>

definition on_push :: "push_body option \<Rightarrow> shown list" where
  "on_push event_data =
    (case event_data of
       None \<Rightarrow> []
     | Some NotJson \<Rightarrow> [fallback_notification]
     | Some NullJson \<Rightarrow> [fallback_notification]
     | Some (ObjectJson m) \<Rightarrow>
         [ShowNotification
            (if truthy (msg_title m) then the (msg_title m) else ''New Notification'')
            (merge_options m)])"

subsection \<open>The notificationclick listener\<close>

record window_client =
  focusable :: bool
  client_url :: string

datatype promise = Fulfilled | Rejected string

datatype open_window = Missing | Opens promise

text \<open>
  The browser as the listener meets it: what \<open>clients.matchAll\<close> settles to, what
  \<open>client.navigate\<close> settles to, and \<open>clients.openWindow\<close> (which the listener tests for
  before calling it). The promise of \<open>client.focus()\<close> is dropped by the listener, so its
  outcome is no parameter.
\<close>

record clients_env =
  matchAll :: "string + window_client list"
  navigate :: promise
  openWindow :: open_window

record click_event =
  action :: string
  notification_data :: "message_data option"

datatype call = Close | MatchAll | Focus nat | Navigate nat string | OpenWindow string

record click_result =
  calls :: "call list"
  logged :: "string list"
  waitUntil :: "promise option"

text \<open>Line 133: \<open>data.url || '/'\<close>, with \<open>data\<close> the notification's data or \<open>{}\<close>.\<close>

definition urlToOpen :: "message_data option \<Rightarrow> string" where
  "urlToOpen d =
    (case d of
       None \<Rightarrow> ''/''
     | Some x \<Rightarrow> if truthy (md_url x) then the (md_url x) else ''/'')"

text \<open>Lines 146 to 160: the loop stops at the first client that has \<open>focus\<close>.\<close>

fun first_focusable :: "window_client list \<Rightarrow> nat \<Rightarrow> (nat \<times> window_client) option" where
  "first_focusable [] i = None"
| "first_focusable (c # cs) i = (if focusable c then Some (i, c) else first_focusable cs (Suc i))"

text \<open>Lines 142 to 167: the callback given to \<open>then\<close>, with the calls it makes.\<close>

definition then_clientList :: "clients_env \<Rightarrow> string \<Rightarrow> window_client list \<Rightarrow> call list \<times> promise" where
  "then_clientList env url clientList =
    (case first_focusable clientList 0 of
       Some (i, client) \<Rightarrow>
         if client_url client \<noteq> url then ([Focus i, Navigate i url], navigate env)
         else ([Focus i], Fulfilled)
     | None \<Rightarrow>
         (case openWindow env of
            Missing \<Rightarrow> ([], Fulfilled)
          | Opens p \<Rightarrow> ([OpenWindow url], p)))"

text \<open>Lines 168 to 170: \<open>.catch\<close> logs the reason and fulfils.\<close>

definition catch_log :: "promise \<Rightarrow> string list \<times> promise" where
  "catch_log p = (case p of Fulfilled \<Rightarrow> ([], Fulfilled) | Rejected e \<Rightarrow> ([e], Fulfilled))"

definition on_notificationclick :: "clients_env \<Rightarrow> click_event \<Rightarrow> click_result" where
  "on_notificationclick env ev =
    (if action ev = ''dismiss''
     then \<lparr>calls = [Close], logged = [], waitUntil = None\<rparr>
     else
       (let url = urlToOpen (notification_data ev);
            (cs, p) = (case matchAll env of
                         Inl e \<Rightarrow> ([], Rejected e)
                       | Inr clientList \<Rightarrow> then_clientList env url clientList);
            (errors, q) = catch_log p
        in \<lparr>calls = Close # MatchAll # cs, logged = errors, waitUntil = Some q\<rparr>))"

subsection \<open>Concrete browsers and clicks\<close>

definition env_no_window_no_openWindow :: clients_env where
  "env_no_window_no_openWindow = \<lparr>matchAll = Inr [], navigate = Fulfilled, openWindow = Missing\<rparr>"

definition env_one_window :: clients_env where
  "env_one_window =
     \<lparr>matchAll = Inr [\<lparr>focusable = True, client_url = ''/''\<rparr>],
      navigate = Rejected ''navigation failed'', openWindow = Opens Fulfilled\<rparr>"

definition default_click :: click_event where
  "default_click = \<lparr>action = '''', notification_data = Some \<lparr>md_url = Some ''/chats/123'', md_type = Some ''new_message''\<rparr>\<rparr>"

definition dismiss_click :: click_event where
  "dismiss_click = \<lparr>action = ''dismiss'', notification_data = Some \<lparr>md_url = Some ''/chats/123'', md_type = Some ''new_message''\<rparr>\<rparr>"

section \<open>Auxiliary facts\<close>

subsection \<open>The route\<close>

lemma fold_slots:
  "fold (\<lambda>i slots. if i < length slots then slots[i := Some (ps ! i)] else slots) ord slots
     = map (\<lambda>i. if i \<in> set ord then Some (ps ! i) else slots ! i) [0..<length slots]"
proof (induction ord arbitrary: slots)
  case Nil
  show ?case by (simp add: map_nth)
next
  case (Cons a ord)
  show ?case
    by (simp add: Cons.IH nth_list_update)
qed

lemma those_map_Some: "those (map Some xs) = Some xs"
  by (induction xs) simp_all

lemma promise_all_settled:
  assumes "{0..<length ps} \<subseteq> set ord"
  shows "promise_all ord ps = Some ps"
proof -
  have "map (\<lambda>i. if i \<in> set ord then Some (ps ! i) else replicate (length ps) None ! i) [0..<length ps]
        = map (\<lambda>i. Some (ps ! i)) [0..<length ps]"
    using assms by (intro map_cong) auto
  also have "\<dots> = map Some (map (\<lambda>i. ps ! i) [0..<length ps])"
    by simp
  also have "\<dots> = map Some ps"
    by (simp only: map_nth)
  finally show ?thesis
    by (simp add: promise_all_def fold_slots those_map_Some)
qed

lemma nths_cong_below:
  assumes "\<And>i. i < length xs \<Longrightarrow> (i \<in> A) = (i \<in> B)"
  shows "nths xs A = nths xs B"
proof -
  have "filter (\<lambda>p. snd p \<in> A) (zip xs [0..<length xs]) = filter (\<lambda>p. snd p \<in> B) (zip xs [0..<length xs])"
    using assms by (intro filter_cong) (auto dest: set_zip_rightD)
  then show ?thesis by (simp add: nths_def)
qed

lemma splice1_nths:
  assumes "d < length xs"
  shows "splice1 d xs = nths xs (- {d})"
proof -
  have xs: "xs = take d xs @ xs ! d # drop (Suc d) xs"
    using assms by (rule id_take_nth_drop)
  have 1: "nths (take d xs) (- {d}) = take d xs"
    by (rule nths_all) auto
  have 2: "nths (drop (Suc d) xs) {j. Suc (j + d) \<in> - {d}} = drop (Suc d) xs"
    by (rule nths_all) auto
  have "nths (take d xs @ xs ! d # drop (Suc d) xs) (- {d}) = take d xs @ drop (Suc d) xs"
    using assms 1 2 by (simp add: nths_append nths_Cons min_def)
  with xs show ?thesis by (simp add: splice1_def)
qed

lemma fold_splice1_desc:
  assumes "sorted is" "distinct is" "\<forall>i \<in> set is. i < length xs"
  shows "fold splice1 (rev is) xs = nths xs (- set is)"
  using assms
proof (induction "is" arbitrary: xs rule: rev_induct)
  case Nil
  show ?case by (simp add: nths_all)
next
  case (snoc d ds)
  have d: "d < length xs" using snoc.prems by simp
  have below: "\<forall>i \<in> set ds. i < d"
  proof
    fix i assume i: "i \<in> set ds"
    with snoc.prems(1) have "i \<le> d" by (simp add: sorted_append)
    moreover from i snoc.prems(2) have "i \<noteq> d" by auto
    ultimately show "i < d" by simp
  qed
  have len: "length (splice1 d xs) = length xs - 1"
    using d by (simp add: splice1_def)
  have "fold splice1 (rev ds) (splice1 d xs) = nths (splice1 d xs) (- set ds)"
  proof (rule snoc.IH)
    show "sorted ds" using snoc.prems(1) by (simp add: sorted_append)
    show "distinct ds" using snoc.prems(2) by simp
    show "\<forall>i \<in> set ds. i < length (splice1 d xs)"
      using below d len by auto
  qed
  also have "\<dots> = nths (take d xs) (- set ds) @ nths (drop (Suc d) xs) {j. j + d \<in> - set ds}"
    using d by (simp add: splice1_def nths_append min_def)
  also have "nths (drop (Suc d) xs) {j. j + d \<in> - set ds} = drop (Suc d) xs"
    using below by (intro nths_all) auto
  also have "nths (take d xs) (- set ds) = nths (take d xs) (- set (ds @ [d]))"
    by (rule nths_cong_below) auto
  also have "drop (Suc d) xs = nths (xs ! d # drop (Suc d) xs) {j. j + d \<in> - set (ds @ [d])}"
  proof -
    have "nths (drop (Suc d) xs) {j. Suc j \<in> {j. j + d \<in> - set (ds @ [d])}} = drop (Suc d) xs"
      using below by (intro nths_all) auto
    then show ?thesis by (simp add: nths_Cons)
  qed
  also have "nths (take d xs) (- set (ds @ [d])) @ nths (xs ! d # drop (Suc d) xs) {j. j + d \<in> - set (ds @ [d])}
             = nths (take d xs @ xs ! d # drop (Suc d) xs) (- set (ds @ [d]))"
    using d by (simp add: nths_append min_def)
  also have "take d xs @ xs ! d # drop (Suc d) xs = xs"
    using d by (simp add: id_take_nth_drop [symmetric])
  finally show ?case by simp
qed


lemma sendPromises_upt:
  "sendPromises w p subs = map (\<lambda>i. send_one w p (subs ! i) i) [0..<length subs]"
  unfolding sendPromises_def by (rule nth_equalityI) simp_all

lemma index_send_one [simp]: "index (send_one w p s i) = i"
  by (simp add: send_one_def split: send_result.split)

lemma removal_indices:
  "map index (filter shouldRemove (sendPromises w p subs))
     = filter (\<lambda>i. shouldRemove (send_one w p (subs ! i) i)) [0..<length subs]"
  by (simp add: sendPromises_upt filter_map comp_def)

lemma prune_sendPromises:
  "prune (sendPromises w p subs) subs
     = nths subs {i. \<not> shouldRemove (send_one w p (subs ! i) i)}"
proof -
  let ?is = "filter (\<lambda>i. shouldRemove (send_one w p (subs ! i) i)) [0..<length subs]"
  have "sort ?is = ?is"
    by (intro sorted_sort_id sorted_wrt_filter) simp
  then have "prune (sendPromises w p subs) subs = fold splice1 (rev ?is) subs"
    by (simp add: prune_def sort_desc_def removal_indices)
  also have "\<dots> = nths subs (- set ?is)"
    by (intro fold_splice1_desc sorted_wrt_filter) simp_all
  also have "\<dots> = nths subs {i. \<not> shouldRemove (send_one w p (subs ! i) i)}"
    by (rule nths_cong_below) auto
  finally show ?thesis .
qed


lemma store_if_empty_None [simp]: "store_if_empty xs None = xs"
  by (simp add: store_if_empty_def)

lemma success_send_one [simp]:
  "success (send_one w p s i) = (w i s p = Delivered)"
  by (simp add: send_one_def split: send_result.split)


lemma length_sendPromises [simp]: "length (sendPromises w p subs) = length subs"
  by (simp add: sendPromises_def)

lemma started_upt:
  "started p subs = map (\<lambda>i. (i, subs ! i, p)) [0..<length subs]"
  unfolding started_def by (rule nth_equalityI) simp_all

lemma dispatch_settled:
  assumes "store_if_empty store0 sub \<noteq> []"
    and "{0..<length (store_if_empty store0 sub)} \<subseteq> set ord"
  shows "dispatch w ord store0 t sub =
     Some \<lparr>response = report t (sendPromises w (stringify_payload t) (store_if_empty store0 sub))
                         (prune (sendPromises w (stringify_payload t) (store_if_empty store0 sub))
                                (store_if_empty store0 sub)),
           store = prune (sendPromises w (stringify_payload t) (store_if_empty store0 sub))
                         (store_if_empty store0 sub),
           attempts = started (stringify_payload t) (store_if_empty store0 sub)\<rparr>"
proof -
  have "promise_all ord (sendPromises w (stringify_payload t) (store_if_empty store0 sub))
          = Some (sendPromises w (stringify_payload t) (store_if_empty store0 sub))"
    using assms(2) by (intro promise_all_settled) simp
  with assms(1) show ?thesis
    by (simp add: dispatch_def Let_def)
qed

lemma POST_dispatch:
  assumes "t \<noteq> []"
  shows "POST w ord store0 (JsonObject \<lparr>type = Some t, subscription = sub\<rparr>) = dispatch w ord store0 t sub"
  using assms by (cases sub) (simp_all add: POST_def truthy_def)


lemma report_sendPromises:
  "report t (sendPromises w p subs) st =
     NotificationSent t (length (filter (delivered_at w p subs) [0..<length subs]))
       (length subs - length (filter (delivered_at w p subs) [0..<length subs])) (length st)"
proof -
  have "delivered_at w p subs = (\<lambda>i. w i (subs ! i) p = Delivered)"
    by (rule ext) (simp add: delivered_at_def)
  then show ?thesis
    by (simp add: report_def Let_def sendPromises_upt filter_map comp_def)
qed

lemma upt_3: "[0..<3] = [0, 1, 2]"
  by (simp add: upt_rec)

lemma those_Some_map: "those xs = Some ys \<Longrightarrow> xs = map Some ys"
proof (induction xs arbitrary: ys)
  case Nil
  then show ?case by simp
next
  case (Cons x xs)
  then show ?case by (cases x) (auto split: option.splits)
qed

lemma promise_all_Some:
  assumes "promise_all ord ps = Some rs"
  shows "rs = ps"
proof -
  let ?slots = "map (\<lambda>i. if i \<in> set ord then Some (ps ! i) else None) [0..<length ps]"
  have eq: "?slots = map Some rs"
  proof (rule those_Some_map)
    have slots: "map (\<lambda>i. if i \<in> set ord then Some (ps ! i) else replicate (length ps) None ! i) [0..<length ps] = ?slots"
      by (intro map_cong) auto
    from assms have "those (map (\<lambda>i. if i \<in> set ord then Some (ps ! i) else replicate (length ps) None ! i) [0..<length ps]) = Some rs"
      by (simp add: promise_all_def fold_slots)
    then show "those ?slots = Some rs"
      by (simp only: slots)
  qed
  then have len: "length rs = length ps"
    by (metis length_map length_upt diff_zero)
  show ?thesis
  proof (rule nth_equalityI)
    show "length rs = length ps" by (rule len)
  next
    fix i assume i: "i < length rs"
    from eq have "?slots ! i = map Some rs ! i" by simp
    with i len show "rs ! i = ps ! i"
      by (simp split: if_splits)
  qed
qed

lemma POST_dispatch_settled:
  assumes "t \<noteq> []"
    and "snapshot = store_if_empty store0 sub"
    and "snapshot \<noteq> []"
    and "set ord = {0..<length snapshot}"
    and "payload = stringify_payload t"
  shows "POST w ord store0 (JsonObject \<lparr>type = Some t, subscription = sub\<rparr>) =
      Some \<lparr>response = report t (sendPromises w payload snapshot)
                         (prune (sendPromises w payload snapshot) snapshot),
           store = prune (sendPromises w payload snapshot) snapshot,
           attempts = started payload snapshot\<rparr>"
  using assms dispatch_settled [of store0 sub ord w t]
  by (simp add: POST_dispatch)

lemma POST_dispatch_result:
  assumes "t \<noteq> []"
    and "POST w ord store0 (JsonObject \<lparr>type = Some t, subscription = sub\<rparr>) = Some r"
  shows "(store_if_empty store0 sub = []
            \<and> r = \<lparr>response = ErrorJson 400 ''No subscriptions found'' None, store = [], attempts = []\<rparr>)
       \<or> (store_if_empty store0 sub \<noteq> []
            \<and> r = \<lparr>response = report t (sendPromises w (stringify_payload t) (store_if_empty store0 sub))
                         (prune (sendPromises w (stringify_payload t) (store_if_empty store0 sub))
                                (store_if_empty store0 sub)),
                   store = prune (sendPromises w (stringify_payload t) (store_if_empty store0 sub))
                                 (store_if_empty store0 sub),
                   attempts = started (stringify_payload t) (store_if_empty store0 sub)\<rparr>)"
proof (cases "store_if_empty store0 sub = []")
  case True
  with assms show ?thesis
    by (simp add: POST_dispatch dispatch_def)
next
  case False
  let ?ps = "sendPromises w (stringify_payload t) (store_if_empty store0 sub)"
  from assms False obtain results where res: "promise_all ord ?ps = Some results"
    by (auto simp: POST_dispatch dispatch_def Let_def split: option.splits)
  then have "results = ?ps" by (rule promise_all_Some)
  with res assms False show ?thesis
    by (simp add: POST_dispatch dispatch_def Let_def)
qed

lemma store_if_empty_nonempty [simp]: "store0 \<noteq> [] \<Longrightarrow> store_if_empty store0 sub = store0"
  by (simp add: store_if_empty_def split: option.split)

lemma findIndex_Some:
  "findIndex P xs = Some i \<Longrightarrow> i < length xs \<and> P (xs ! i) \<and> (\<forall>j<i. \<not> P (xs ! j))"
proof (induction xs arbitrary: i)
  case Nil
  then show ?case by simp
next
  case (Cons x xs)
  show ?case
  proof (cases "P x")
    case True
    with Cons.prems show ?thesis by simp
  next
    case False
    with Cons.prems obtain k where k: "findIndex P xs = Some k" "i = Suc k"
      by auto
    from Cons.IH [OF k(1)] False k(2) show ?thesis
      by (auto simp: less_Suc_eq_0_disj)
  qed
qed

lemma findIndex_None: "findIndex P xs = None \<Longrightarrow> \<forall>x \<in> set xs. \<not> P x"
  by (induction xs) (auto split: if_splits)

lemma POST_register:
  assumes "\<not> truthy ty"
  shows "POST w ord store0 (JsonObject \<lparr>type = ty, subscription = Some sub\<rparr>)
           = Some \<lparr>response = SubscriptionStored (length (store_subscription store0 sub)),
                   store = store_subscription store0 sub, attempts = []\<rparr>"
  using assms by (simp add: POST_def Let_def)

lemma mem_store_subscription: "sub \<in> set (store_subscription store0 sub)"
  by (auto simp: store_subscription_def set_update_memI split: option.split dest: findIndex_Some)

lemma length_store_subscription:
  "length (store_subscription store0 sub) =
     (if endpoint sub \<in> endpoint ` set store0 then length store0 else Suc (length store0))"
proof (cases "findIndex (\<lambda>s. endpoint s = endpoint sub) store0")
  case None
  from findIndex_None [OF this] have "endpoint sub \<notin> endpoint ` set store0" by auto
  with None show ?thesis by (simp add: store_subscription_def)
next
  case (Some i)
  from findIndex_Some [OF this] have "endpoint sub \<in> endpoint ` set store0"
    by (metis image_eqI nth_mem)
  with Some show ?thesis by (simp add: store_subscription_def)
qed

lemma distinct_store_subscription:
  assumes "distinct (map endpoint store0)"
  shows "distinct (map endpoint (store_subscription store0 sub))"
proof (cases "findIndex (\<lambda>s. endpoint s = endpoint sub) store0")
  case None
  from findIndex_None [OF this] have "endpoint sub \<notin> endpoint ` set store0" by auto
  with None assms show ?thesis by (simp add: store_subscription_def)
next
  case (Some i)
  from findIndex_Some [OF this] have "(map endpoint store0)[i := endpoint sub] = map endpoint store0"
    by (metis list_update_id nth_map)
  with Some assms show ?thesis by (simp add: store_subscription_def map_update)
qed

lemma distinct_store_if_empty:
  assumes "distinct (map endpoint store0)"
  shows "distinct (map endpoint (store_if_empty store0 sub))"
  using assms by (simp add: store_if_empty_def split: option.split)

lemma POST_preserves_distinct:
  assumes "distinct (map endpoint store0)" and "POST w ord store0 req = Some r"
  shows "distinct (map endpoint (store r))"
proof (cases req)
  case (JsonFails m)
  with assms show ?thesis by (auto simp: POST_def)
next
  case JsonNull
  with assms show ?thesis by (auto simp: POST_def)
next
  case (JsonObject b)
  obtain ty sub where b: "b = \<lparr>type = ty, subscription = sub\<rparr>"
    by (cases b) simp
  show ?thesis
  proof (cases "truthy ty")
    case True
    then obtain t where t: "ty = Some t" "t \<noteq> []"
      by (auto simp: truthy_def split: option.splits)
    from assms(2) have "POST w ord store0 (JsonObject \<lparr>type = Some t, subscription = sub\<rparr>) = Some r"
      by (simp add: JsonObject b t)
    from POST_dispatch_result [OF t(2) this] distinct_store_if_empty [OF assms(1), of sub]
    show ?thesis
      by (auto simp: prune_sendPromises nths_map [symmetric])
  next
    case False
    show ?thesis
    proof (cases sub)
      case None
      with False assms show ?thesis by (auto simp: POST_def JsonObject b)
    next
      case (Some s)
      with False assms(2) have "store r = store_subscription store0 s"
        by (auto simp: POST_register JsonObject b)
      with assms(1) show ?thesis by (simp add: distinct_store_subscription)
    qed
  qed
qed

lemma reachable_distinct: "reachable st \<Longrightarrow> distinct (map endpoint st)"
proof (induction rule: reachable.induct)
  case initial
  show ?case by simp
next
  case (request pushSubscriptions webpush ord req r)
  then show ?case by (intro POST_preserves_distinct)
qed

lemma store_subscription_replace:
  assumes "distinct (map endpoint st)" and "i < length st" and "endpoint (st ! i) = endpoint sub"
  shows "store_subscription st sub = st[i := sub]"
proof (cases "findIndex (\<lambda>s. endpoint s = endpoint sub) st")
  case None
  from findIndex_None [OF this] assms(2,3) show ?thesis
    by (metis nth_mem)
next
  case (Some k)
  from findIndex_Some [OF this] have k: "k < length st" "endpoint (st ! k) = endpoint sub"
    by simp_all
  with assms have "map endpoint st ! k = map endpoint st ! i" by simp
  with assms(1,2) k(1) have "k = i"
    by (simp add: nth_eq_iff_index_eq del: nth_map)
  with Some show ?thesis by (simp add: store_subscription_def)
qed

lemma store_subscription_has:
  "\<exists>i<length (store_subscription st sub). store_subscription st sub ! i = sub"
  using mem_store_subscription [of sub st] by (simp add: in_set_conv_nth)

lemma filter_update_unique:
  assumes "distinct (map f xs)" and "i < length xs" and "f (xs ! i) = f y"
  shows "filter (\<lambda>x. f x = f y) (xs[i := y]) = [y]"
proof -
  have xs: "xs = take i xs @ xs ! i # drop (Suc i) xs"
    using assms(2) by (rule id_take_nth_drop)
  have upd: "xs[i := y] = take i xs @ y # drop (Suc i) xs"
    using assms(2) by (rule upd_conv_take_nth_drop)
  from assms(1) have "distinct (map f (take i xs @ xs ! i # drop (Suc i) xs))"
    using xs by simp
  then have "f (xs ! i) \<notin> f ` set (take i xs)" "f (xs ! i) \<notin> f ` set (drop (Suc i) xs)"
    by auto
  then have "filter (\<lambda>x. f x = f y) (take i xs) = []" "filter (\<lambda>x. f x = f y) (drop (Suc i) xs) = []"
    using assms(3) by (auto simp: filter_empty_conv image_iff)
  then show ?thesis
    by (simp add: upd)
qed

lemma run_reachable:
  assumes "run a b" and "reachable a"
  shows "reachable b"
  using assms
proof (induction rule: run.induct)
  case (none pushSubscriptions)
  then show ?case by simp
next
  case (more pushSubscriptions0 pushSubscriptions webpush ord req r)
  then show ?case by (auto intro: reachable.request)
qed

lemma store_subscription_append:
  assumes "\<forall>s \<in> set st. endpoint s \<noteq> endpoint sub"
  shows "store_subscription st sub = st @ [sub]"
proof (cases "findIndex (\<lambda>s. endpoint s = endpoint sub) st")
  case None
  then show ?thesis by (simp add: store_subscription_def)
next
  case (Some k)
  from findIndex_Some [OF this] assms show ?thesis
    by (metis nth_mem)
qed

subsection \<open>The service worker\<close>

lemma first_focusable_Some:
  "first_focusable cs k = Some (i, c) \<Longrightarrow>
     \<exists>n. i = k + n \<and> n < length cs \<and> c = cs ! n \<and> focusable (cs ! n)
         \<and> (\<forall>j<n. \<not> focusable (cs ! j))"
proof (induction cs arbitrary: k)
  case Nil
  then show ?case by simp
next
  case (Cons a cs)
  show ?case
  proof (cases "focusable a")
    case True
    with Cons.prems have "i = k + 0 \<and> 0 < length (a # cs) \<and> c = (a # cs) ! 0
        \<and> focusable ((a # cs) ! 0) \<and> (\<forall>j<0. \<not> focusable ((a # cs) ! j))"
      by simp
    then show ?thesis by blast
  next
    case False
    with Cons.prems have "first_focusable cs (Suc k) = Some (i, c)" by simp
    from Cons.IH [OF this] obtain n where n: "i = Suc k + n" "n < length cs" "c = cs ! n"
      "focusable (cs ! n)" "\<forall>j<n. \<not> focusable (cs ! j)"
      by blast
    have "\<forall>j<Suc n. \<not> focusable ((a # cs) ! j)"
      using False n(5) by (simp add: nth_Cons less_Suc_eq_0_disj split: nat.split)
    with n have "i = k + Suc n \<and> Suc n < length (a # cs) \<and> c = (a # cs) ! Suc n
        \<and> focusable ((a # cs) ! Suc n) \<and> (\<forall>j<Suc n. \<not> focusable ((a # cs) ! j))"
      by simp
    then show ?thesis by blast
  qed
qed

lemma first_focusable_None:
  "first_focusable cs k = None \<longleftrightarrow> (\<forall>c \<in> set cs. \<not> focusable c)"
  by (induction cs arbitrary: k) auto

lemma first_focusable_at:
  assumes "i < length cs" "focusable (cs ! i)" "\<forall>j<i. \<not> focusable (cs ! j)"
  shows "first_focusable cs 0 = Some (i, cs ! i)"
proof (cases "first_focusable cs 0")
  case None
  with assms(1,2) show ?thesis
    by (auto simp: first_focusable_None)
next
  case (Some p)
  obtain k c where p: "p = (k, c)" by (cases p)
  from first_focusable_Some [OF Some [unfolded p]]
  have k: "k < length cs" "c = cs ! k" "focusable (cs ! k)" "\<forall>j<k. \<not> focusable (cs ! j)"
    by auto
  from k(3) assms(3) have "\<not> k < i" by blast
  moreover from assms(2) k(4) have "\<not> i < k" by blast
  ultimately have "k = i" by simp
  with Some p k(2) show ?thesis by simp
qed

lemma click_not_dismiss:
  assumes "action ev \<noteq> ''dismiss''"
  shows "on_notificationclick env ev =
     (case matchAll env of
        Inl e \<Rightarrow> \<lparr>calls = [Close, MatchAll], logged = [e], waitUntil = Some Fulfilled\<rparr>
      | Inr clientList \<Rightarrow>
          \<lparr>calls = Close # MatchAll # fst (then_clientList env (urlToOpen (notification_data ev)) clientList),
           logged = fst (catch_log (snd (then_clientList env (urlToOpen (notification_data ev)) clientList))),
           waitUntil = Some Fulfilled\<rparr>)"
  using assms
  by (simp add: on_notificationclick_def Let_def catch_log_def split_def
      split: sum.split promise.split)

section \<open>Properties of the route\<close>



text \<open>
  C2 fails on the code, which misses what its comment at line 167 announces. The
  specification's criterion is the status 410 or a message of expiry; the test of lines 168
  and 169 looks for the text 410 in the message. The error of the web-push library for a 410
  response carries the status in \<open>statusCode\<close> and not in its message: the subscription
  is counted as failed and stays stored. A failure that is no report of a gone endpoint but
  whose message holds the digits 410, such as a timeout after 4100 ms, removes the
  subscription.
\<close>

theorem C2_status_410_not_pruned:
  "reports_permanently_gone (ErrorObj ''Received unexpected response code'' (Some 410))
   \<and> \<not> is_gone (ErrorObj ''Received unexpected response code'' (Some 410))
   \<and> POST net_status_410 [0] [sub_a]
         (JsonObject \<lparr>type = Some ''new_message'', subscription = None\<rparr>)
       = Some \<lparr>response = NotificationSent ''new_message'' 0 1 1, store = [sub_a],
               attempts = [(0, sub_a, stringify_payload ''new_message'')]\<rparr>
   \<and> \<not> reports_permanently_gone (ErrorObj ''timeout after 4100 ms'' None)
   \<and> is_gone (ErrorObj ''timeout after 4100 ms'' None)
   \<and> POST net_timeout_4100 [0] [sub_a]
         (JsonObject \<lparr>type = Some ''new_message'', subscription = None\<rparr>)
       = Some \<lparr>response = NotificationSent ''new_message'' 0 1 0, store = [],
               attempts = [(0, sub_a, stringify_payload ''new_message'')]\<rparr>"
proof -
  have 1: "reports_permanently_gone (ErrorObj ''Received unexpected response code'' (Some 410))"
    by (simp add: reports_permanently_gone_def)
  have 2: "\<not> is_gone (ErrorObj ''Received unexpected response code'' (Some 410))"
    by (simp add: is_gone_def)
  have 3: "\<not> reports_permanently_gone (ErrorObj ''timeout after 4100 ms'' None)"
    by (simp add: reports_permanently_gone_def)
  have 4: "is_gone (ErrorObj ''timeout after 4100 ms'' None)"
    by (simp add: is_gone_def)
  have 5: "POST net_status_410 [0] [sub_a]
         (JsonObject \<lparr>type = Some ''new_message'', subscription = None\<rparr>)
       = Some \<lparr>response = NotificationSent ''new_message'' 0 1 1, store = [sub_a],
               attempts = [(0, sub_a, stringify_payload ''new_message'')]\<rparr>"
    using 2
    by (simp add: POST_def truthy_def dispatch_def promise_all_def sendPromises_def send_one_def
        net_status_410_def prune_def sort_desc_def report_def started_def)
  have 6: "POST net_timeout_4100 [0] [sub_a]
         (JsonObject \<lparr>type = Some ''new_message'', subscription = None\<rparr>)
       = Some \<lparr>response = NotificationSent ''new_message'' 0 1 0, store = [],
               attempts = [(0, sub_a, stringify_payload ''new_message'')]\<rparr>"
    using 4
    by (simp add: POST_def truthy_def dispatch_def promise_all_def sendPromises_def send_one_def
        net_timeout_4100_def prune_def sort_desc_def splice1_def report_def started_def)
  from 1 2 3 4 5 6 show ?thesis by simp
qed




text \<open>
  C4: from any list the route can reach, a registration succeeds and puts its subscription
  at the position of the record that had the same endpoint, or at the end when there was none.
  Whatever requests follow, as long as a record with that endpoint is still stored, a second
  registration with the same endpoint succeeds and overwrites that record where it stands:
  every other position is untouched (in place, not moved to the end), the record is the only
  one with that endpoint and is the later subscription, and the length of the list, which the
  response reports, is unchanged by the second call.
\<close>

theorem C4_reregistration_in_place:
  assumes reachable: "reachable store0"
    and first: "\<not> truthy ty1"
    and second: "\<not> truthy ty2"
    and same_endpoint: "endpoint sub2 = endpoint sub1"
  shows "\<exists>r1.
           POST webpush1 ord1 store0 (JsonObject \<lparr>type = ty1, subscription = Some sub1\<rparr>) = Some r1
         \<and> (\<forall>k<length store0. endpoint (store0 ! k) = endpoint sub1 \<longrightarrow>
                store r1 = store0[k := sub1])
         \<and> ((\<forall>s \<in> set store0. endpoint s \<noteq> endpoint sub1) \<longrightarrow> store r1 = store0 @ [sub1])
         \<and> (\<exists>i<length (store r1). store r1 ! i = sub1)
         \<and> (\<forall>st i. run (store r1) st \<and> i < length st \<and> endpoint (st ! i) = endpoint sub1 \<longrightarrow>
               (\<exists>r2.
                   POST webpush2 ord2 st (JsonObject \<lparr>type = ty2, subscription = Some sub2\<rparr>) = Some r2
                 \<and> store r2 = st[i := sub2]
                 \<and> filter (\<lambda>s. endpoint s = endpoint sub2) (store r2) = [sub2]
                 \<and> length (store r2) = length st
                 \<and> response r2 = SubscriptionStored (length st)))"
proof -
  let ?st1 = "store_subscription store0 sub1"
  let ?r1 = "\<lparr>response = SubscriptionStored (length ?st1), store = ?st1, attempts = []\<rparr>"
  have p1: "POST webpush1 ord1 store0 (JsonObject \<lparr>type = ty1, subscription = Some sub1\<rparr>) = Some ?r1"
    using first by (rule POST_register)
  have d0: "distinct (map endpoint store0)"
    using reachable by (rule reachable_distinct)
  have r1: "reachable (store ?r1)"
    using reachable p1 by (rule reachable.request)
  have a: "\<forall>k<length store0. endpoint (store0 ! k) = endpoint sub1 \<longrightarrow>
                store ?r1 = store0[k := sub1]"
  proof (intro allI impI)
    fix k
    assume "k < length store0" and "endpoint (store0 ! k) = endpoint sub1"
    with d0 have "store_subscription store0 sub1 = store0[k := sub1]"
      by (rule store_subscription_replace)
    then show "store ?r1 = store0[k := sub1]" by simp
  qed
  have b: "(\<forall>s \<in> set store0. endpoint s \<noteq> endpoint sub1) \<longrightarrow> store ?r1 = store0 @ [sub1]"
  proof
    assume "\<forall>s \<in> set store0. endpoint s \<noteq> endpoint sub1"
    then have "store_subscription store0 sub1 = store0 @ [sub1]"
      by (rule store_subscription_append)
    then show "store ?r1 = store0 @ [sub1]" by simp
  qed
  have c: "\<exists>i<length (store ?r1). store ?r1 ! i = sub1"
    using store_subscription_has [of store0 sub1] by simp
  have d: "\<forall>st i. run (store ?r1) st \<and> i < length st \<and> endpoint (st ! i) = endpoint sub1 \<longrightarrow>
               (\<exists>r2.
                   POST webpush2 ord2 st (JsonObject \<lparr>type = ty2, subscription = Some sub2\<rparr>) = Some r2
                 \<and> store r2 = st[i := sub2]
                 \<and> filter (\<lambda>s. endpoint s = endpoint sub2) (store r2) = [sub2]
                 \<and> length (store r2) = length st
                 \<and> response r2 = SubscriptionStored (length st))"
  proof (intro allI impI)
    fix st i
    assume "run (store ?r1) st \<and> i < length st \<and> endpoint (st ! i) = endpoint sub1"
    then have run: "run (store ?r1) st" and i: "i < length st"
      and ep: "endpoint (st ! i) = endpoint sub2"
      using same_endpoint by simp_all
    have dst: "distinct (map endpoint st)"
      by (rule reachable_distinct [OF run_reachable [OF run r1]])
    let ?st2 = "store_subscription st sub2"
    let ?r2 = "\<lparr>response = SubscriptionStored (length ?st2), store = ?st2, attempts = []\<rparr>"
    have p2: "POST webpush2 ord2 st (JsonObject \<lparr>type = ty2, subscription = Some sub2\<rparr>) = Some ?r2"
      using second by (rule POST_register)
    have st2: "?st2 = st[i := sub2]"
      using dst i ep by (rule store_subscription_replace)
    have one: "filter (\<lambda>s. endpoint s = endpoint sub2) (st[i := sub2]) = [sub2]"
      using dst i ep by (rule filter_update_unique)
    have facts: "store ?r2 = st[i := sub2]"
      "filter (\<lambda>s. endpoint s = endpoint sub2) (store ?r2) = [sub2]"
      "length (store ?r2) = length st"
      "response ?r2 = SubscriptionStored (length st)"
      using one by (simp_all add: st2)
    show "\<exists>r2.
                   POST webpush2 ord2 st (JsonObject \<lparr>type = ty2, subscription = Some sub2\<rparr>) = Some r2
                 \<and> store r2 = st[i := sub2]
                 \<and> filter (\<lambda>s. endpoint s = endpoint sub2) (store r2) = [sub2]
                 \<and> length (store r2) = length st
                 \<and> response r2 = SubscriptionStored (length st)"
      by (intro exI [of _ ?r2] conjI) (rule p2 facts)+
  qed
  show ?thesis
  proof (rule exI [of _ ?r1], intro conjI)
    show "POST webpush1 ord1 store0 (JsonObject \<lparr>type = ty1, subscription = Some sub1\<rparr>) = Some ?r1"
      by (rule p1)
  qed (rule a b c d)+
qed

theorem C4_reregistration_in_place_witness:
  "\<exists>r1 r2. POST net_mixed [] [] (register_request sub_a) = Some r1
         \<and> store r1 = [sub_a]
         \<and> POST net_mixed [] [sub_a, sub_b, sub_c] (register_request sub_a2) = Some r2
         \<and> store r2 = [sub_a2, sub_b, sub_c]
         \<and> response r2 = SubscriptionStored 3"
proof -
  have f: "\<not> truthy None" by (simp add: truthy_def)
  have e: "endpoint sub_a2 = endpoint sub_a" by (simp add: sub_a_def sub_a2_def)
  from C4_reregistration_in_place [OF reachable.initial f f e, of net_mixed "[]" net_mixed "[]"]
  obtain r1 where r1: "POST net_mixed [] [] (JsonObject \<lparr>type = None, subscription = Some sub_a\<rparr>) = Some r1"
    and fresh: "(\<forall>s \<in> set ([] :: push_subscription list). endpoint s \<noteq> endpoint sub_a)
                  \<longrightarrow> store r1 = [] @ [sub_a]"
    and later: "\<forall>st i. run (store r1) st \<and> i < length st \<and> endpoint (st ! i) = endpoint sub_a \<longrightarrow>
               (\<exists>r2.
                   POST net_mixed [] st (JsonObject \<lparr>type = None, subscription = Some sub_a2\<rparr>) = Some r2
                 \<and> store r2 = st[i := sub_a2]
                 \<and> filter (\<lambda>s. endpoint s = endpoint sub_a2) (store r2) = [sub_a2]
                 \<and> length (store r2) = length st
                 \<and> response r2 = SubscriptionStored (length st))"
    by (elim exE conjE) (rule that)
  from fresh have s1: "store r1 = [sub_a]" by simp
  have b: "POST net_mixed [] [sub_a] (register_request sub_b)
             = Some \<lparr>response = SubscriptionStored 2, store = [sub_a, sub_b], attempts = []\<rparr>"
    by (simp add: register_request_def POST_def truthy_def store_subscription_def
        sub_a_def sub_b_def)
  have c: "POST net_mixed [] [sub_a, sub_b] (register_request sub_c)
             = Some \<lparr>response = SubscriptionStored 3, store = [sub_a, sub_b, sub_c], attempts = []\<rparr>"
    by (simp add: register_request_def POST_def truthy_def store_subscription_def
        sub_a_def sub_b_def sub_c_def)
  have "run [sub_a] [sub_a]" by (rule run.none)
  from run.more [OF this b] have "run [sub_a] [sub_a, sub_b]" by simp
  from run.more [OF this c] have run3: "run (store r1) [sub_a, sub_b, sub_c]" by (simp add: s1)
  have i0: "0 < length [sub_a, sub_b, sub_c]" by simp
  have ep0: "endpoint ([sub_a, sub_b, sub_c] ! 0) = endpoint sub_a" by simp
  from later [rule_format, OF conjI [OF run3 conjI [OF i0 ep0]]]
  obtain r2 where r2: "POST net_mixed [] [sub_a, sub_b, sub_c]
                         (JsonObject \<lparr>type = None, subscription = Some sub_a2\<rparr>) = Some r2"
    and st2: "store r2 = [sub_a, sub_b, sub_c][0 := sub_a2]"
    and resp: "response r2 = SubscriptionStored (length [sub_a, sub_b, sub_c])"
    by (elim exE conjE) (rule that)
  show ?thesis
    unfolding register_request_def
  proof (intro exI conjI)
    show "POST net_mixed [] [] (JsonObject \<lparr>type = None, subscription = Some sub_a\<rparr>) = Some r1"
      by (rule r1)
    show "store r1 = [sub_a]" by (rule s1)
    show "POST net_mixed [] [sub_a, sub_b, sub_c]
            (JsonObject \<lparr>type = None, subscription = Some sub_a2\<rparr>) = Some r2"
      by (rule r2)
    show "store r2 = [sub_a2, sub_b, sub_c]" using st2 by simp
    show "response r2 = SubscriptionStored 3" using resp by simp
  qed
qed

text \<open>
  C5: a dispatch request with a known event type that arrives while no subscription is stored
  and carries none itself is answered with status 400 and the error "No subscriptions found";
  no delivery attempt is started and the list stays empty.
\<close>

theorem C5_empty_store_no_subscribers:
  assumes "notificationPayloads t \<noteq> None"
  shows "POST webpush ord [] (JsonObject \<lparr>type = Some t, subscription = None\<rparr>)
           = Some \<lparr>response = ErrorJson 400 ''No subscriptions found'' None,
                   store = [], attempts = []\<rparr>"
proof -
  from assms have "t \<noteq> []"
    by (auto simp: notificationPayloads_def)
  then show ?thesis
    by (simp add: POST_def truthy_def dispatch_def)
qed

theorem C5_empty_store_witness:
  "notificationPayloads ''new_match'' \<noteq> None \<and>
   POST net_mixed [] [] (JsonObject \<lparr>type = Some ''new_match'', subscription = None\<rparr>)
     = Some \<lparr>response = ErrorJson 400 ''No subscriptions found'' None, store = [], attempts = []\<rparr>"
proof -
  have known: "notificationPayloads ''new_match'' \<noteq> None"
    by (simp add: notificationPayloads_def)
  from C5_empty_store_no_subscribers [OF known, of net_mixed "[]"] known
  show ?thesis by simp
qed

text \<open>
  C6: the fan-out starts one attempt for every subscription of the snapshot and records, at the
  position of each attempt, the outcome of that very attempt: success when the transport
  delivered it, failure (marked for removal or not) when the transport threw. The report is
  produced whatever the attempts answer, and counts the recorded successes and failures. The
  outcome recorded for position \<open>j\<close> depends on the answer to attempt \<open>j\<close> alone: under
  any other network that answers attempt \<open>j\<close> alike, whatever it does to the others, the
  same attempts are started and the same outcome is recorded for \<open>j\<close>.
\<close>

theorem C6_fanout_isolation:
  assumes dispatch_request: "t \<noteq> []"
    and snapshot: "snapshot = store_if_empty store0 sub"
    and nonempty: "snapshot \<noteq> []"
    and order: "distinct ord" "set ord = {0..<length snapshot}"
    and payload: "payload = stringify_payload t"
    and req: "req = JsonObject \<lparr>type = Some t, subscription = sub\<rparr>"
  shows "\<exists>r results.
           POST webpush ord store0 req = Some r
         \<and> attempts r = map (\<lambda>i. (i, snapshot ! i, payload)) [0..<length snapshot]
         \<and> promise_all ord (sendPromises webpush payload snapshot) = Some results
         \<and> length results = length snapshot
         \<and> (\<forall>j<length snapshot. \<forall>i s p. attempts r ! j = (i, s, p) \<longrightarrow>
               (webpush i s p = Delivered \<longrightarrow>
                  results ! j = \<lparr>success = True, index = j, shouldRemove = False\<rparr>)
             \<and> (\<forall>e. webpush i s p = Throws e \<longrightarrow>
                  results ! j = \<lparr>success = False, index = j, shouldRemove = is_gone e\<rparr>))
         \<and> response r =
             NotificationSent t
               (length (filter (\<lambda>j. success (results ! j)) [0..<length snapshot]))
               (length (filter (\<lambda>j. \<not> success (results ! j)) [0..<length snapshot]))
               (length (store r))
         \<and> (\<exists>sent failed total. response r = NotificationSent t sent failed total)
         \<and> (\<forall>j<length snapshot. \<forall>webpush'.
               webpush' j (snapshot ! j) payload = webpush j (snapshot ! j) payload \<longrightarrow>
               (\<exists>r' results'.
                   POST webpush' ord store0 req = Some r'
                 \<and> attempts r' = attempts r
                 \<and> promise_all ord (sendPromises webpush' payload snapshot) = Some results'
                 \<and> results' ! j = results ! j))"
proof -
  have post: "POST w ord store0 req =
      Some \<lparr>response = report t (sendPromises w payload snapshot)
                         (prune (sendPromises w payload snapshot) snapshot),
           store = prune (sendPromises w payload snapshot) snapshot,
           attempts = started payload snapshot\<rparr>" for w
    unfolding req
    using dispatch_request snapshot nonempty order(2) payload by (rule POST_dispatch_settled)
  have all: "promise_all ord (sendPromises w payload snapshot) = Some (sendPromises w payload snapshot)" for w
    using order(2) by (intro promise_all_settled) simp
  have same: "sendPromises w' payload snapshot ! j = sendPromises webpush payload snapshot ! j"
    if "j < length snapshot" "w' j (snapshot ! j) payload = webpush j (snapshot ! j) payload" for j w'
    using that by (simp add: sendPromises_upt send_one_def)
  let ?results = "sendPromises webpush payload snapshot"
  let ?r = "\<lparr>response = report t ?results (prune ?results snapshot),
            store = prune ?results snapshot,
            attempts = started payload snapshot\<rparr>"
  have 1: "POST webpush ord store0 req = Some ?r"
    by (rule post)
  have 2: "attempts ?r = map (\<lambda>i. (i, snapshot ! i, payload)) [0..<length snapshot]"
    by (simp add: started_upt)
  have 3: "promise_all ord ?results = Some ?results"
    by (rule all)
  have 4: "length ?results = length snapshot"
    by simp
  have 5: "\<exists>sent failed total. response ?r = NotificationSent t sent failed total"
    by (simp add: report_def Let_def)
  have 6: "\<forall>j<length snapshot. \<forall>webpush'.
               webpush' j (snapshot ! j) payload = webpush j (snapshot ! j) payload \<longrightarrow>
               (\<exists>r' results'.
                   POST webpush' ord store0 req = Some r'
                 \<and> attempts r' = attempts ?r
                 \<and> promise_all ord (sendPromises webpush' payload snapshot) = Some results'
                 \<and> results' ! j = ?results ! j)"
  proof (intro allI impI)
    fix j webpush'
    assume j: "j < length snapshot"
      and agree: "webpush' j (snapshot ! j) payload = webpush j (snapshot ! j) payload"
    let ?results' = "sendPromises webpush' payload snapshot"
    let ?r' = "\<lparr>response = report t ?results' (prune ?results' snapshot),
            store = prune ?results' snapshot,
            attempts = started payload snapshot\<rparr>"
    have "POST webpush' ord store0 req = Some ?r'" by (rule post)
    moreover have "attempts ?r' = attempts ?r" by simp
    moreover have "promise_all ord ?results' = Some ?results'" by (rule all)
    moreover have "?results' ! j = ?results ! j" using j agree by (rule same)
    ultimately show "\<exists>r' results'.
                   POST webpush' ord store0 req = Some r'
                 \<and> attempts r' = attempts ?r
                 \<and> promise_all ord (sendPromises webpush' payload snapshot) = Some results'
                 \<and> results' ! j = ?results ! j"
      by blast
  qed
  have 7: "\<forall>j<length snapshot. \<forall>i s p. attempts ?r ! j = (i, s, p) \<longrightarrow>
               (webpush i s p = Delivered \<longrightarrow>
                  ?results ! j = \<lparr>success = True, index = j, shouldRemove = False\<rparr>)
             \<and> (\<forall>e. webpush i s p = Throws e \<longrightarrow>
                  ?results ! j = \<lparr>success = False, index = j, shouldRemove = is_gone e\<rparr>)"
  proof (intro allI impI)
    fix j i s p
    assume j: "j < length snapshot" and att: "attempts ?r ! j = (i, s, p)"
    from j att have "i = j" "s = snapshot ! j" "p = payload"
      by (auto simp: started_upt)
    moreover from j have "?results ! j = send_one webpush payload (snapshot ! j) j"
      by (simp add: sendPromises_upt)
    ultimately show "(webpush i s p = Delivered \<longrightarrow>
                  ?results ! j = \<lparr>success = True, index = j, shouldRemove = False\<rparr>)
             \<and> (\<forall>e. webpush i s p = Throws e \<longrightarrow>
                  ?results ! j = \<lparr>success = False, index = j, shouldRemove = is_gone e\<rparr>)"
      by (simp add: send_one_def)
  qed
  have 8: "response ?r =
             NotificationSent t
               (length (filter (\<lambda>j. success (?results ! j)) [0..<length snapshot]))
               (length (filter (\<lambda>j. \<not> success (?results ! j)) [0..<length snapshot]))
               (length (store ?r))"
  proof -
    have d: "delivered_at webpush payload snapshot = (\<lambda>i. webpush i (snapshot ! i) payload = Delivered)"
      by (rule ext) (simp add: delivered_at_def)
    have s: "filter (\<lambda>j. success (?results ! j)) [0..<length snapshot]
               = filter (delivered_at webpush payload snapshot) [0..<length snapshot]"
      by (rule filter_cong) (simp_all add: sendPromises_upt d)
    have f: "filter (\<lambda>j. \<not> success (?results ! j)) [0..<length snapshot]
               = filter (\<lambda>j. \<not> delivered_at webpush payload snapshot j) [0..<length snapshot]"
      by (rule filter_cong) (simp_all add: sendPromises_upt d)
    have "length (filter (delivered_at webpush payload snapshot) [0..<length snapshot])
            + length (filter (\<lambda>j. \<not> delivered_at webpush payload snapshot j) [0..<length snapshot])
          = length [0..<length snapshot]"
      by (rule sum_length_filter_compl)
    then have "length (filter (\<lambda>j. \<not> delivered_at webpush payload snapshot j) [0..<length snapshot])
          = length snapshot
              - length (filter (delivered_at webpush payload snapshot) [0..<length snapshot])"
      by simp
    then show ?thesis
      by (simp only: s f post_result.simps report_sendPromises)
  qed
  show ?thesis
    by (rule exI [of _ ?r], rule exI [of _ ?results], intro conjI) (rule 1 2 3 4 5 6 7 8)+
qed

theorem C6_fanout_isolation_witness:
  "\<exists>r r' results results'.
       POST net_mixed [2, 0, 1] [sub_a, sub_b, sub_c]
          (JsonObject \<lparr>type = Some ''chat_expiry'', subscription = None\<rparr>) = Some r
     \<and> POST net_first_only [2, 0, 1] [sub_a, sub_b, sub_c]
          (JsonObject \<lparr>type = Some ''chat_expiry'', subscription = None\<rparr>) = Some r'
     \<and> length (attempts r) = 3 \<and> attempts r' = attempts r
     \<and> promise_all [2, 0, 1] (sendPromises net_mixed (stringify_payload ''chat_expiry'') [sub_a, sub_b, sub_c]) = Some results
     \<and> promise_all [2, 0, 1] (sendPromises net_first_only (stringify_payload ''chat_expiry'') [sub_a, sub_b, sub_c]) = Some results'
     \<and> results' ! 0 = results ! 0
     \<and> results ! 0 = \<lparr>success = True, index = 0, shouldRemove = False\<rparr>
     \<and> results ! 1 = \<lparr>success = False, index = 1, shouldRemove = True\<rparr>
     \<and> results ! 2 = \<lparr>success = False, index = 2, shouldRemove = False\<rparr>"
proof -
  let ?subs = "[sub_a, sub_b, sub_c]"
  let ?p = "stringify_payload ''chat_expiry''"
  let ?req = "JsonObject \<lparr>type = Some ''chat_expiry'', subscription = None\<rparr>"
  have snap: "?subs = store_if_empty ?subs None"
    by simp
  have ord: "distinct [2, 0, 1::nat]" "set [2, 0, 1::nat] = {0..<length ?subs}"
    by auto
  have t: "''chat_expiry'' \<noteq> []" by simp
  have agree: "net_first_only 0 (?subs ! 0) ?p = net_mixed 0 (?subs ! 0) ?p"
    by (simp add: net_first_only_def net_mixed_def)
  have ne: "?subs \<noteq> []" by simp
  from C6_fanout_isolation [OF t snap ne ord refl refl, of net_mixed]
  obtain r results where r: "POST net_mixed [2, 0, 1] ?subs ?req = Some r"
    and att: "attempts r = map (\<lambda>i. (i, ?subs ! i, ?p)) [0..<length ?subs]"
    and res: "promise_all [2, 0, 1] (sendPromises net_mixed ?p ?subs) = Some results"
    and tie: "\<forall>j<length ?subs. \<forall>i s p. attempts r ! j = (i, s, p) \<longrightarrow>
               (net_mixed i s p = Delivered \<longrightarrow>
                  results ! j = \<lparr>success = True, index = j, shouldRemove = False\<rparr>)
             \<and> (\<forall>e. net_mixed i s p = Throws e \<longrightarrow>
                  results ! j = \<lparr>success = False, index = j, shouldRemove = is_gone e\<rparr>)"
    and iso: "\<forall>j<length ?subs. \<forall>webpush'.
               webpush' j (?subs ! j) ?p = net_mixed j (?subs ! j) ?p \<longrightarrow>
               (\<exists>r' results'.
                   POST webpush' [2, 0, 1] ?subs ?req = Some r'
                 \<and> attempts r' = attempts r
                 \<and> promise_all [2, 0, 1] (sendPromises webpush' ?p ?subs) = Some results'
                 \<and> results' ! j = results ! j)"
    by (elim exE conjE) (rule that)
  have att3: "attempts r = [(0, sub_a, ?p), (1, sub_b, ?p), (2, sub_c, ?p)]"
    using att by (simp add: upt_3)
  have j0: "0 < length ?subs" and j1: "1 < length ?subs" and j2: "2 < length ?subs"
    by simp_all
  have a0: "attempts r ! 0 = (0, sub_a, ?p)" and a1: "attempts r ! 1 = (1, sub_b, ?p)"
    and a2: "attempts r ! 2 = (2, sub_c, ?p)"
    by (simp_all add: att3)
  from tie [rule_format, OF j0 a0] have r0: "results ! 0 = \<lparr>success = True, index = 0, shouldRemove = False\<rparr>"
    by (simp add: net_mixed_def)
  from tie [rule_format, OF j1 a1] have r1: "results ! 1 = \<lparr>success = False, index = 1, shouldRemove = True\<rparr>"
    by (simp add: net_mixed_def is_gone_def)
  from tie [rule_format, OF j2 a2] have r2: "results ! 2 = \<lparr>success = False, index = 2, shouldRemove = False\<rparr>"
    by (simp add: net_mixed_def is_gone_def)
  from iso [rule_format, of 0 net_first_only, OF j0 agree]
  obtain r' results' where r': "POST net_first_only [2, 0, 1] ?subs ?req = Some r'"
    and att': "attempts r' = attempts r"
    and res': "promise_all [2, 0, 1] (sendPromises net_first_only ?p ?subs) = Some results'"
    and eq0: "results' ! 0 = results ! 0"
    by (elim exE conjE) (rule that)
  have len: "length (attempts r) = 3"
    by (simp add: att3)
  show ?thesis
    by (intro exI conjI) (rule r r' len att' res res' eq0 r0 r1 r2)+
qed

text \<open>
  C7 as stated fails: a registration whose subscription has no endpoint is not rejected; it is
  stored and counted.
\<close>

theorem C7_missing_endpoint_counterexample:
  "endpoint sub_no_endpoint = None
   \<and> POST net_mixed [] [] (JsonObject \<lparr>type = None, subscription = Some sub_no_endpoint\<rparr>)
       = Some \<lparr>response = SubscriptionStored 1, store = [sub_no_endpoint], attempts = []\<rparr>"
  by (simp add: POST_def truthy_def store_subscription_def sub_no_endpoint_def)

text \<open>
  C7 amended: every registration request (a subscription and no truthy type) succeeds and
  returns the length of the list afterwards, whether or not the subscription has an endpoint;
  the subscription is in the list afterwards, which is as long as before when a record with the
  same endpoint was stored and one longer otherwise.
\<close>

theorem C7_registration_always_stores:
  assumes registration: "\<not> truthy ty"
  shows "POST webpush ord store0 (JsonObject \<lparr>type = ty, subscription = Some sub\<rparr>)
           = Some \<lparr>response = SubscriptionStored (length (store_subscription store0 sub)),
                   store = store_subscription store0 sub, attempts = []\<rparr>
       \<and> sub \<in> set (store_subscription store0 sub)
       \<and> length (store_subscription store0 sub) =
           (if endpoint sub \<in> endpoint ` set store0 then length store0 else Suc (length store0))"
  using registration
  by (simp add: POST_register mem_store_subscription length_store_subscription)

theorem C7_registration_always_stores_witness:
  "POST net_mixed [] [sub_a] (JsonObject \<lparr>type = None, subscription = Some sub_no_endpoint\<rparr>)
     = Some \<lparr>response = SubscriptionStored 2, store = [sub_a, sub_no_endpoint], attempts = []\<rparr>"
proof -
  have "\<not> truthy None" by (simp add: truthy_def)
  from C7_registration_always_stores [OF this, of net_mixed "[]" "[sub_a]" sub_no_endpoint]
  show ?thesis
    by (simp add: store_subscription_def sub_a_def sub_no_endpoint_def)
qed

text \<open>
  C10: when the list is not empty, a subscription sent along with an event type has no effect:
  the snapshot of the fan-out is the list as it was before the request, the whole result of the
  request is that of the same request without the subscription, and the list afterwards holds
  only records of the list before, at their positions (nothing appended, nothing replaced).
\<close>

theorem C10_included_subscription_ignored:
  assumes nonempty: "store0 \<noteq> []" and dispatch_request: "t \<noteq> []"
  shows "store_if_empty store0 (Some s) = store0
       \<and> POST webpush ord store0 (JsonObject \<lparr>type = Some t, subscription = Some s\<rparr>)
           = POST webpush ord store0 (JsonObject \<lparr>type = Some t, subscription = None\<rparr>)
       \<and> (\<forall>r. POST webpush ord store0 (JsonObject \<lparr>type = Some t, subscription = Some s\<rparr>) = Some r
              \<longrightarrow> (\<exists>I. store r = nths store0 I))"
proof (intro conjI allI impI)
  show "store_if_empty store0 (Some s) = store0"
    using nonempty by simp
  show "POST webpush ord store0 (JsonObject \<lparr>type = Some t, subscription = Some s\<rparr>)
           = POST webpush ord store0 (JsonObject \<lparr>type = Some t, subscription = None\<rparr>)"
    using nonempty dispatch_request by (simp add: POST_dispatch dispatch_def)
next
  fix r
  assume "POST webpush ord store0 (JsonObject \<lparr>type = Some t, subscription = Some s\<rparr>) = Some r"
  from POST_dispatch_result [OF dispatch_request this] nonempty
  have "store r = prune (sendPromises webpush (stringify_payload t) store0) store0"
    by simp
  then show "\<exists>I. store r = nths store0 I"
    by (auto simp: prune_sendPromises)
qed

theorem C10_included_subscription_ignored_witness:
  "store_if_empty [sub_a] (Some sub_b) = [sub_a]
   \<and> POST net_mixed [0] [sub_a] (JsonObject \<lparr>type = Some ''new_match'', subscription = Some sub_b\<rparr>)
       = POST net_mixed [0] [sub_a] (JsonObject \<lparr>type = Some ''new_match'', subscription = None\<rparr>)"
proof -
  have "[sub_a] \<noteq> []" and "''new_match'' \<noteq> []" by simp_all
  from C10_included_subscription_ignored [OF this, of sub_b net_mixed "[0]"]
  show ?thesis by simp
qed

section \<open>Properties of the service worker\<close>

text \<open>
  C8 as stated fails: a push message that carries no body at all shows no notification; the
  listener returns at its first test.
\<close>

theorem C8_no_body_counterexample:
  "on_push None = [] \<and> on_push None \<noteq> [fallback_notification]"
  by (simp add: on_push_def)

text \<open>
  C8 amended: a push message whose body is present but does not parse shows exactly one
  notification, the fallback with its fixed title, body, icon and badge and with
  \<open>data.url = '/'\<close>; a push message with no body shows none.
\<close>

theorem C8_unparseable_body_fallback:
  "on_push (Some NotJson) =
     [ShowNotification ''New Notification''
       \<lparr>opt_body = Some ''You have a new notification'',
        opt_icon = Some ''/icon-192x192.svg'',
        opt_badge = Some ''/icon-192x192.svg'',
        opt_tag = None, opt_vibrate = None, opt_requireInteraction = None, opt_renotify = None,
        opt_data = \<lparr>sd_url = ''/'', sd_type = None\<rparr>,
        opt_actions = None\<rparr>]
   \<and> length (on_push (Some NotJson)) = 1
   \<and> on_push None = []"
  by (simp add: on_push_def fallback_notification_def)

text \<open>
  C9 as stated fails: on a default click with no window client at all, a browser without
  \<open>clients.openWindow\<close> gets no window opened.
\<close>

theorem C9_no_openWindow_counterexample:
  "action default_click \<noteq> ''dismiss''
   \<and> matchAll env_no_window_no_openWindow = Inr []
   \<and> on_notificationclick env_no_window_no_openWindow default_click
       = \<lparr>calls = [Close, MatchAll], logged = [], waitUntil = Some Fulfilled\<rparr>"
  by (simp add: default_click_def env_no_window_no_openWindow_def on_notificationclick_def
      then_clientList_def catch_log_def)

text \<open>
  C9 amended: a click on the dismiss action closes the notification and makes no other call.
  Any other click closes it and asks for the window clients; the first client that can be
  focused is focused, and navigated to the target URL (\<open>data.url\<close>, or \<open>/\<close> when
  it is absent or empty) only if its own URL differs; when no client can be focused, a new
  window is opened at the target URL provided the browser has \<open>clients.openWindow\<close>, and
  nothing is opened otherwise. A rejection by \<open>matchAll\<close>, \<open>navigate\<close> or
  \<open>openWindow\<close> is logged and the promise handed to \<open>waitUntil\<close> is fulfilled all the
  same.
\<close>

theorem C9_click_routing:
  "(action ev = ''dismiss'' \<longrightarrow>
      on_notificationclick env ev = \<lparr>calls = [Close], logged = [], waitUntil = None\<rparr>)
   \<and> (action ev \<noteq> ''dismiss'' \<longrightarrow>
        waitUntil (on_notificationclick env ev) = Some Fulfilled
      \<and> (\<forall>e. matchAll env = Inl e \<longrightarrow>
            calls (on_notificationclick env ev) = [Close, MatchAll]
          \<and> logged (on_notificationclick env ev) = [e])
      \<and> (\<forall>clientList. matchAll env = Inr clientList \<longrightarrow>
            (\<forall>i. i < length clientList \<and> focusable (clientList ! i)
                   \<and> (\<forall>j<i. \<not> focusable (clientList ! j)) \<longrightarrow>
                 calls (on_notificationclick env ev) =
                   (if client_url (clientList ! i) \<noteq> urlToOpen (notification_data ev)
                    then [Close, MatchAll, Focus i, Navigate i (urlToOpen (notification_data ev))]
                    else [Close, MatchAll, Focus i])
               \<and> logged (on_notificationclick env ev) =
                   (if client_url (clientList ! i) \<noteq> urlToOpen (notification_data ev)
                    then (case navigate env of Fulfilled \<Rightarrow> [] | Rejected e \<Rightarrow> [e])
                    else []))
          \<and> ((\<forall>c \<in> set clientList. \<not> focusable c) \<longrightarrow>
                (case openWindow env of
                   Opens p \<Rightarrow>
                     calls (on_notificationclick env ev)
                       = [Close, MatchAll, OpenWindow (urlToOpen (notification_data ev))]
                     \<and> logged (on_notificationclick env ev)
                       = (case p of Fulfilled \<Rightarrow> [] | Rejected e \<Rightarrow> [e])
                 | Missing \<Rightarrow>
                     calls (on_notificationclick env ev) = [Close, MatchAll]
                     \<and> logged (on_notificationclick env ev) = []))))"
proof (intro conjI impI allI)
  assume "action ev = ''dismiss''"
  then show "on_notificationclick env ev = \<lparr>calls = [Close], logged = [], waitUntil = None\<rparr>"
    by (simp add: on_notificationclick_def)
next
  assume "action ev \<noteq> ''dismiss''"
  then show "waitUntil (on_notificationclick env ev) = Some Fulfilled"
    by (simp add: click_not_dismiss split: sum.split)
next
  fix e
  assume "action ev \<noteq> ''dismiss''" "matchAll env = Inl e"
  then show "calls (on_notificationclick env ev) = [Close, MatchAll]"
    and "logged (on_notificationclick env ev) = [e]"
    by (simp_all add: click_not_dismiss)
next
  fix clientList i
  assume nd: "action ev \<noteq> ''dismiss''" and m: "matchAll env = Inr clientList"
    and i: "i < length clientList \<and> focusable (clientList ! i)
                   \<and> (\<forall>j<i. \<not> focusable (clientList ! j))"
  then have ff: "first_focusable clientList 0 = Some (i, clientList ! i)"
    by (intro first_focusable_at) simp_all
  show "calls (on_notificationclick env ev) =
                   (if client_url (clientList ! i) \<noteq> urlToOpen (notification_data ev)
                    then [Close, MatchAll, Focus i, Navigate i (urlToOpen (notification_data ev))]
                    else [Close, MatchAll, Focus i])"
    using nd m ff by (simp add: click_not_dismiss then_clientList_def)
  show "logged (on_notificationclick env ev) =
                   (if client_url (clientList ! i) \<noteq> urlToOpen (notification_data ev)
                    then (case navigate env of Fulfilled \<Rightarrow> [] | Rejected e \<Rightarrow> [e])
                    else [])"
    using nd m ff by (simp add: click_not_dismiss then_clientList_def catch_log_def split: promise.split)
next
  fix clientList
  assume nd: "action ev \<noteq> ''dismiss''" and m: "matchAll env = Inr clientList"
    and none: "\<forall>c \<in> set clientList. \<not> focusable c"
  then have ff: "first_focusable clientList 0 = None"
    by (simp add: first_focusable_None)
  show "case openWindow env of
                   Opens p \<Rightarrow>
                     calls (on_notificationclick env ev)
                       = [Close, MatchAll, OpenWindow (urlToOpen (notification_data ev))]
                     \<and> logged (on_notificationclick env ev)
                       = (case p of Fulfilled \<Rightarrow> [] | Rejected e \<Rightarrow> [e])
                 | Missing \<Rightarrow>
                     calls (on_notificationclick env ev) = [Close, MatchAll]
                     \<and> logged (on_notificationclick env ev) = []"
    using nd m ff
    by (simp add: click_not_dismiss then_clientList_def catch_log_def
        split: open_window.split promise.split)
qed

theorem C9_click_routing_witness:
  "on_notificationclick env_one_window dismiss_click
     = \<lparr>calls = [Close], logged = [], waitUntil = None\<rparr>
   \<and> calls (on_notificationclick env_one_window default_click)
       = [Close, MatchAll, Focus 0, Navigate 0 ''/chats/123'']
   \<and> logged (on_notificationclick env_one_window default_click) = [''navigation failed'']
   \<and> waitUntil (on_notificationclick env_one_window default_click) = Some Fulfilled"
proof -
  have d: "action dismiss_click = ''dismiss''" by (simp add: dismiss_click_def)
  have nd: "action default_click \<noteq> ''dismiss''" by (simp add: default_click_def)
  have m: "matchAll env_one_window = Inr [\<lparr>focusable = True, client_url = ''/''\<rparr>]"
    by (simp add: env_one_window_def)
  have u: "urlToOpen (notification_data default_click) = ''/chats/123''"
    by (simp add: urlToOpen_def default_click_def truthy_def)
  have n: "navigate env_one_window = Rejected ''navigation failed''"
    by (simp add: env_one_window_def)
  from C9_click_routing [of dismiss_click env_one_window] d
  have 1: "on_notificationclick env_one_window dismiss_click
     = \<lparr>calls = [Close], logged = [], waitUntil = None\<rparr>"
    by simp
  from C9_click_routing [of default_click env_one_window] nd
  have 2: "waitUntil (on_notificationclick env_one_window default_click) = Some Fulfilled"
    and all: "\<forall>clientList. matchAll env_one_window = Inr clientList \<longrightarrow>
            (\<forall>i. i < length clientList \<and> focusable (clientList ! i)
                   \<and> (\<forall>j<i. \<not> focusable (clientList ! j)) \<longrightarrow>
                 calls (on_notificationclick env_one_window default_click) =
                   (if client_url (clientList ! i) \<noteq> urlToOpen (notification_data default_click)
                    then [Close, MatchAll, Focus i, Navigate i (urlToOpen (notification_data default_click))]
                    else [Close, MatchAll, Focus i])
               \<and> logged (on_notificationclick env_one_window default_click) =
                   (if client_url (clientList ! i) \<noteq> urlToOpen (notification_data default_click)
                    then (case navigate env_one_window of Fulfilled \<Rightarrow> [] | Rejected e \<Rightarrow> [e])
                    else []))"
    by simp_all
  from all [rule_format, OF m, of 0]
  have 3: "calls (on_notificationclick env_one_window default_click)
       = [Close, MatchAll, Focus 0, Navigate 0 ''/chats/123'']"
    and 4: "logged (on_notificationclick env_one_window default_click) = [''navigation failed'']"
    by (simp_all add: u n)
  from 1 2 3 4 show ?thesis by simp
qed

end
